theory Spec2Isabelle
  imports Main "HOL-Library.Word" "HOL-Library.AList" "HOL-Library.Char_ord"
    "HOL-Library.List_Lexorder"
begin

section \<open>The file system the program runs on\<close>

text \<open>
  gotfiles is a sequence of calls into Go's \<^verbatim>\<open>os\<close>, \<^verbatim>\<open>io\<close> and
  \<^verbatim>\<open>path/filepath\<close> packages. The file system is modelled as an association list
  from canonical absolute paths (lists of components, the root being the empty list) to
  nodes; every call of the program becomes a function on that state which returns the
  error of the call (if any) together with the new state.

  What is modelled of the operating system: regular files with their bytes and mode bits,
  directories with their mode bits, symbolic links (followed in every intermediate
  component, and in the final one by the calls that do so, at most \<open>MAXSYMLINKS\<close> times),
  and the errors that come from the shape of the tree (\<open>ENOENT\<close>, \<open>ENOTDIR\<close>,
  \<open>EEXIST\<close>, \<open>EISDIR\<close>, \<open>ENOTEMPTY\<close>, \<open>ELOOP\<close>, \<open>ENAMETOOLONG\<close>).
  What is not: access rights (every call is permitted), the process umask (a node gets the
  mode the program asks for), hard links, and targets of symbolic links that are relative
  (a link holds an absolute path).
\<close>

type_synonym path = "string list"
type_synonym bytes = "8 word list"
type_synonym perm = nat

datatype node = File perm bytes | Dir perm | Symlink path

type_synonym fs = "(path \<times> node) list"

datatype errno = ENOENT | ENOTDIR | EEXIST | EISDIR | ENOTEMPTY | ELOOP | ENAMETOOLONG

definition PATH_MAX :: nat where
  "PATH_MAX = 4096"

definition MAXSYMLINKS :: nat where
  "MAXSYMLINKS = 40"

text \<open>The length of the path as a string: every component with its separator.\<close>

definition pathlen :: "path \<Rightarrow> nat" where
  "pathlen p = sum_list (map (\<lambda>c. Suc (length c)) p)"

fun isDir :: "node \<Rightarrow> bool" where
  "isDir (Dir m) = True"
| "isDir n = False"

fun isSymlink :: "node \<Rightarrow> bool" where
  "isSymlink (Symlink t) = True"
| "isSymlink n = False"

fun isRegular :: "node \<Rightarrow> bool" where
  "isRegular (File m bs) = True"
| "isRegular n = False"

subsection \<open>Path resolution\<close>

text \<open>
  \<open>walk m follow k cur rest\<close> resolves the components \<open>rest\<close> below the canonical
  directory \<open>cur\<close>, with \<open>k\<close> symbolic links left to follow. It answers the canonical
  place of the last component, which need not exist; every component before it must be a
  directory or a link to one. A link in the last component is followed when \<open>follow\<close>.
\<close>

fun walk :: "(path \<rightharpoonup> node) \<Rightarrow> bool \<Rightarrow> nat \<Rightarrow> path \<Rightarrow> path \<Rightarrow> errno + path" where
  "walk m follow k cur [] = Inr cur"
| "walk m follow k cur (c # cs) =
     (case m cur of
        None \<Rightarrow> Inl ENOENT
      | Some (File pm bs) \<Rightarrow> Inl ENOTDIR
      | Some (Symlink t) \<Rightarrow> Inl ENOTDIR
      | Some (Dir pm) \<Rightarrow>
          (case m (cur @ [c]) of
             Some (Symlink t) \<Rightarrow>
               (if cs = [] \<and> \<not> follow then Inr (cur @ [c])
                else (case k of
                        0 \<Rightarrow> Inl ELOOP
                      | Suc k' \<Rightarrow> walk m follow k' [] (t @ cs)))
           | _ \<Rightarrow> (if cs = [] then Inr (cur @ [c]) else walk m follow k (cur @ [c]) cs)))"

definition resolve :: "fs \<Rightarrow> bool \<Rightarrow> path \<Rightarrow> errno + path" where
  "resolve fs follow p =
     (if PATH_MAX \<le> pathlen p then Inl ENAMETOOLONG
      else walk (map_of fs) follow MAXSYMLINKS [] p)"

subsection \<open>path/filepath\<close>

text \<open>
  \<^verbatim>\<open>filepath.Clean\<close> on the components of an absolute path: empty components and
  \<^verbatim>\<open>.\<close> are dropped, \<^verbatim>\<open>..\<close> drops the component before it (and nothing at the root).
\<close>

fun Clean_acc :: "path \<Rightarrow> path \<Rightarrow> path" where
  "Clean_acc acc [] = acc"
| "Clean_acc acc (c # cs) =
     (if c = [] \<or> c = ''.'' then Clean_acc acc cs
      else if c = ''..'' then Clean_acc (butlast acc) cs
      else Clean_acc (acc @ [c]) cs)"

definition filepath_Clean :: "path \<Rightarrow> path" where
  "filepath_Clean p = Clean_acc [] p"

definition filepath_Join :: "path \<Rightarrow> path \<Rightarrow> path" where
  "filepath_Join a b = filepath_Clean (a @ b)"

definition filepath_Dir :: "path \<Rightarrow> path" where
  "filepath_Dir p = butlast (filepath_Clean p)"

subsection \<open>os: Lstat, Stat, Mkdir, MkdirAll\<close>

definition os_IsNotExist :: "errno \<Rightarrow> bool" where
  "os_IsNotExist e = (e = ENOENT)"

definition os_Lstat :: "fs \<Rightarrow> path \<Rightarrow> errno + node" where
  "os_Lstat fs p =
     (case resolve fs False p of
        Inl e \<Rightarrow> Inl e
      | Inr q \<Rightarrow> (case map_of fs q of None \<Rightarrow> Inl ENOENT | Some n \<Rightarrow> Inr n))"

definition os_Stat :: "fs \<Rightarrow> path \<Rightarrow> errno + node" where
  "os_Stat fs p =
     (case resolve fs True p of
        Inl e \<Rightarrow> Inl e
      | Inr q \<Rightarrow> (case map_of fs q of None \<Rightarrow> Inl ENOENT | Some n \<Rightarrow> Inr n))"

definition os_Mkdir :: "fs \<Rightarrow> path \<Rightarrow> perm \<Rightarrow> errno option \<times> fs" where
  "os_Mkdir fs p pm =
     (case resolve fs False p of
        Inl e \<Rightarrow> (Some e, fs)
      | Inr q \<Rightarrow>
          (case map_of fs q of
             Some n \<Rightarrow> (Some EEXIST, fs)
           | None \<Rightarrow> (if q = [] then (Some EEXIST, fs)
                      else (None, AList.update q (Dir pm) fs))))"

text \<open>
  \<^verbatim>\<open>os.MkdirAll\<close> as Go writes it: a directory that is there is a success, anything
  else that is there is \<open>ENOTDIR\<close>; otherwise the parent is made first (unless it is the
  root), then the directory itself, and a failure of that last step is forgiven when the
  directory turns out to exist.
\<close>

function os_MkdirAll :: "fs \<Rightarrow> path \<Rightarrow> perm \<Rightarrow> errno option \<times> fs" where
  "os_MkdirAll fs p pm =
     (case os_Stat fs p of
        Inr n \<Rightarrow> (if isDir n then (None, fs) else (Some ENOTDIR, fs))
      | Inl e0 \<Rightarrow>
          (case (if 1 < length p then os_MkdirAll fs (butlast p) pm else (None, fs)) of
             (Some e, fs1) \<Rightarrow> (Some e, fs1)
           | (None, fs1) \<Rightarrow>
               (case os_Mkdir fs1 p pm of
                  (None, fs2) \<Rightarrow> (None, fs2)
                | (Some e, fs2) \<Rightarrow>
                    (case os_Lstat fs1 p of
                       Inr n \<Rightarrow> (if isDir n then (None, fs1) else (Some e, fs1))
                     | Inl e1 \<Rightarrow> (Some e, fs1)))))"
  by pat_completeness auto
termination
  by (relation "measure (\<lambda>(fs, p, pm). length p)") auto

subsection \<open>os: Open, Create, Remove, RemoveAll, Symlink; io.Copy; ioutil.ReadDir\<close>

text \<open>An open file is named by the canonical place of its node.\<close>

definition os_Open :: "fs \<Rightarrow> path \<Rightarrow> errno + path" where
  "os_Open fs p =
     (case resolve fs True p of
        Inl e \<Rightarrow> Inl e
      | Inr q \<Rightarrow> (case map_of fs q of None \<Rightarrow> Inl ENOENT | Some n \<Rightarrow> Inr q))"

text \<open>
  \<^verbatim>\<open>os.Create\<close>: a new file gets mode 0666 (438); an existing file is truncated and
  keeps its mode; a link in the last component is followed, also when it dangles.
\<close>

definition os_Create :: "fs \<Rightarrow> path \<Rightarrow> (errno + path) \<times> fs" where
  "os_Create fs p =
     (case resolve fs True p of
        Inl e \<Rightarrow> (Inl e, fs)
      | Inr q \<Rightarrow>
          (case map_of fs q of
             None \<Rightarrow> (if q = [] then (Inl EISDIR, fs)
                      else (Inr q, AList.update q (File 438 []) fs))
           | Some (File pm bs) \<Rightarrow> (Inr q, AList.update q (File pm []) fs)
           | Some (Dir pm) \<Rightarrow> (Inl EISDIR, fs)
           | Some (Symlink t) \<Rightarrow> (Inl ELOOP, fs)))"

text \<open>
  \<^verbatim>\<open>io.Copy(output, input)\<close>: the bytes the input holds now are written to the
  output; reading a directory is \<open>EISDIR\<close>.
\<close>

definition io_Copy :: "fs \<Rightarrow> path \<Rightarrow> path \<Rightarrow> errno option \<times> fs" where
  "io_Copy fs output input =
     (case map_of fs input of
        Some (File pm bs) \<Rightarrow>
          (case map_of fs output of
             Some (File pm' bs') \<Rightarrow> (None, AList.update output (File pm' bs) fs)
           | _ \<Rightarrow> (Some ENOENT, fs))
      | Some (Dir pm) \<Rightarrow> (Some EISDIR, fs)
      | _ \<Rightarrow> (Some ENOENT, fs))"

definition children :: "fs \<Rightarrow> path \<Rightarrow> (path \<times> node) list" where
  "children fs q = filter (\<lambda>(r, n). r \<noteq> [] \<and> butlast r = q) fs"

text \<open>\<^verbatim>\<open>os.Remove\<close>: unlink, or rmdir for a directory, which must be empty.\<close>

definition os_Remove :: "fs \<Rightarrow> path \<Rightarrow> errno option \<times> fs" where
  "os_Remove fs p =
     (case resolve fs False p of
        Inl e \<Rightarrow> (Some e, fs)
      | Inr q \<Rightarrow>
          (case map_of fs q of
             None \<Rightarrow> (Some ENOENT, fs)
           | Some (Dir pm) \<Rightarrow>
               (if children fs q = [] \<and> q \<noteq> [] then (None, AList.delete q fs)
                else (Some ENOTEMPTY, fs))
           | Some n \<Rightarrow> (None, AList.delete q fs)))"

text \<open>
  \<^verbatim>\<open>os.RemoveAll\<close>: the node and everything below it; a path that does not exist is
  a success.
\<close>

definition os_RemoveAll :: "fs \<Rightarrow> path \<Rightarrow> errno option \<times> fs" where
  "os_RemoveAll fs p =
     (case resolve fs False p of
        Inl e \<Rightarrow> (if os_IsNotExist e then (None, fs) else (Some e, fs))
      | Inr q \<Rightarrow> (None, filter (\<lambda>(r, n). take (length q) r \<noteq> q) fs))"

text \<open>\<^verbatim>\<open>os.Symlink(oldname, newname)\<close>.\<close>

definition os_Symlink :: "fs \<Rightarrow> path \<Rightarrow> path \<Rightarrow> errno option \<times> fs" where
  "os_Symlink fs oldname newname =
     (case resolve fs False newname of
        Inl e \<Rightarrow> (Some e, fs)
      | Inr q \<Rightarrow>
          (case map_of fs q of
             Some n \<Rightarrow> (Some EEXIST, fs)
           | None \<Rightarrow> (if q = [] then (Some EEXIST, fs)
                      else (None, AList.update q (Symlink oldname) fs))))"

text \<open>
  \<^verbatim>\<open>ioutil.ReadDir\<close>: the entries of a directory sorted by name, each with the node
  an lstat of it gives. The names \<^verbatim>\<open>.\<close> and \<^verbatim>\<open>..\<close> are never entries.
\<close>

definition entryName :: "string \<Rightarrow> bool" where
  "entryName c = (c \<noteq> [] \<and> c \<noteq> ''.'' \<and> c \<noteq> ''..'')"

definition ioutil_ReadDir :: "fs \<Rightarrow> path \<Rightarrow> errno + (string \<times> node) list" where
  "ioutil_ReadDir fs p =
     (case resolve fs True p of
        Inl e \<Rightarrow> Inl e
      | Inr q \<Rightarrow>
          (case map_of fs q of
             None \<Rightarrow> Inl ENOENT
           | Some (Dir pm) \<Rightarrow>
               Inr (map (\<lambda>c. (c, the (map_of fs (q @ [c]))))
                      (sort (remdups (filter entryName (map (\<lambda>(r, n). last r) (children fs q))))))
           | Some n \<Rightarrow> Inl ENOTDIR))"

section \<open>The program\<close>

subsection \<open>copyFile and copyDir\<close>

text \<open>
  \<^verbatim>\<open>copyFile(src, dst)\<close>: open the source, make the directory of the destination
  with mode 0755 (493), create the destination, copy the bytes. The same function, with
  the same text, is in both variants of the program.
\<close>

definition copyFile :: "fs \<Rightarrow> path \<Rightarrow> path \<Rightarrow> errno option \<times> fs" where
  "copyFile fs src dst =
     (case os_Open fs src of
        Inl e \<Rightarrow> (Some e, fs)
      | Inr input \<Rightarrow>
          (case os_MkdirAll fs (filepath_Dir dst) 493 of
             (Some e, fs1) \<Rightarrow> (Some e, fs1)
           | (None, fs1) \<Rightarrow>
               (case os_Create fs1 dst of
                  (Inl e, fs2) \<Rightarrow> (Some e, fs2)
                | (Inr output, fs2) \<Rightarrow> io_Copy fs2 output input)))"

fun modeOf :: "node \<Rightarrow> perm" where
  "modeOf (File pm bs) = pm"
| "modeOf (Dir pm) = pm"
| "modeOf (Symlink t) = 511"

lemma pathlen_append: "pathlen (a @ b) = pathlen a + pathlen b"
  by (simp add: pathlen_def)

lemma pathlen_butlast: "pathlen (butlast a) \<le> pathlen a"
proof (cases "a = []")
  case True
  then show ?thesis by simp
next
  case False
  then have "pathlen a = pathlen (butlast a) + pathlen [last a]"
    using pathlen_append [of "butlast a" "[last a]"] by simp
  then show ?thesis by simp
qed

lemma Clean_acc_snoc:
  "entryName c \<Longrightarrow> Clean_acc acc (xs @ [c]) = Clean_acc acc xs @ [c]"
  by (induction xs arbitrary: acc) (auto simp: entryName_def)

lemma pathlen_Clean_acc: "pathlen (Clean_acc acc xs) \<le> pathlen acc + pathlen xs"
proof (induction xs arbitrary: acc)
  case Nil
  then show ?case by (simp add: pathlen_def)
next
  case (Cons c cs)
  have a: "pathlen (c # cs) = Suc (length c) + pathlen cs"
    by (simp add: pathlen_def)
  have b: "pathlen (acc @ [c]) = pathlen acc + Suc (length c)"
    by (simp add: pathlen_def)
  show ?case
    using Cons.IH [of acc] Cons.IH [of "butlast acc"] Cons.IH [of "acc @ [c]"]
      pathlen_butlast [of acc] a b
    by auto
qed

lemma Clean_acc_entryName:
  "list_all entryName acc \<Longrightarrow> list_all entryName (Clean_acc acc xs)"
proof (induction xs arbitrary: acc)
  case Nil
  then show ?case by simp
next
  case (Cons c cs)
  have "list_all entryName (butlast acc)"
    using Cons.prems by (auto simp: list_all_iff dest: in_set_butlastD)
  moreover have "c \<noteq> [] \<Longrightarrow> c \<noteq> ''.'' \<Longrightarrow> c \<noteq> ''..'' \<Longrightarrow> list_all entryName (acc @ [c])"
  proof -
    assume "c \<noteq> []" "c \<noteq> ''.''" "c \<noteq> ''..''"
    then have "entryName c" by (simp add: entryName_def)
    with Cons.prems show ?thesis by simp
  qed
  ultimately show ?case
    using Cons.IH Cons.prems by simp
qed

lemma Clean_acc_proper: "list_all entryName xs \<Longrightarrow> Clean_acc acc xs = acc @ xs"
  by (induction xs arbitrary: acc) (auto simp: entryName_def)

lemma resolve_pathlen: "resolve fs follow p = Inr q \<Longrightarrow> pathlen p < PATH_MAX"
  by (auto simp: resolve_def split: if_splits)

lemma os_Stat_pathlen: "os_Stat fs p = Inr n \<Longrightarrow> pathlen p < PATH_MAX"
  by (auto simp: os_Stat_def split: sum.splits dest: resolve_pathlen)

lemma set_ReadDir_entryName:
  "ioutil_ReadDir fs p = Inr es \<Longrightarrow> (c, n) \<in> set es \<Longrightarrow> entryName c"
  by (auto simp: ioutil_ReadDir_def split: sum.splits option.splits node.splits)

text \<open>
  \<^verbatim>\<open>copyDir(src, dst)\<close>. The loop over the entries stops at the first error. A
  directory below the source is copied by the recursive call, anything else (a symbolic
  link too) by \<open>copyFile\<close>. The recursion ends because every call begins with a
  \<^verbatim>\<open>os.Stat\<close> of a path that is longer than the one before, and a path of
  \<open>PATH_MAX\<close> bytes is refused.
\<close>

function copyDir :: "fs \<Rightarrow> path \<Rightarrow> path \<Rightarrow> errno option \<times> fs" where
  "copyDir fs src dst =
     (case os_Stat fs src of
        Inl e \<Rightarrow> (Some e, fs)
      | Inr srcInfo \<Rightarrow>
          (case os_MkdirAll fs dst (modeOf srcInfo) of
             (Some e, fs1) \<Rightarrow> (Some e, fs1)
           | (None, fs1) \<Rightarrow>
               (case ioutil_ReadDir fs1 src of
                  Inl e \<Rightarrow> (Some e, fs1)
                | Inr entries \<Rightarrow>
                    fold (\<lambda>entry (err, fs2).
                            (case err of
                               Some e \<Rightarrow> (Some e, fs2)
                             | None \<Rightarrow>
                                 (if isDir (snd entry)
                                  then copyDir fs2 (filepath_Join src [fst entry])
                                         (filepath_Join dst [fst entry])
                                  else copyFile fs2 (filepath_Join src [fst entry])
                                         (filepath_Join dst [fst entry]))))
                      entries (None, fs1))))"
  by pat_completeness auto
termination
proof (relation "measure (\<lambda>(fs, src, dst). PATH_MAX - pathlen (filepath_Clean src))")
  show "wf (measure (\<lambda>(fs, src, dst). PATH_MAX - pathlen (filepath_Clean src)))"
    by simp
next
  fix fs src dst srcInfo fs1 entries and fs2 :: fs and entry :: "string \<times> node"
  assume st: "os_Stat fs src = Inr srcInfo"
    and rd: "ioutil_ReadDir fs1 src = Inr entries"
    and mem: "entry \<in> set entries"
  have en: "entryName (fst entry)"
    using set_ReadDir_entryName [OF rd, of "fst entry" "snd entry"] mem by simp
  have small: "pathlen (filepath_Clean src) < PATH_MAX"
    using os_Stat_pathlen [OF st] pathlen_Clean_acc [of "[]" src]
    by (simp add: filepath_Clean_def pathlen_def)
  have j: "filepath_Join src [fst entry] = filepath_Clean src @ [fst entry]"
    using Clean_acc_snoc [OF en, of "[]" src]
    by (simp add: filepath_Join_def filepath_Clean_def)
  have idem: "filepath_Clean (filepath_Clean src) = filepath_Clean src"
  proof -
    have "list_all entryName (Clean_acc [] src)"
      by (rule Clean_acc_entryName) simp
    then have "Clean_acc [] (Clean_acc [] src) = [] @ Clean_acc [] src"
      by (rule Clean_acc_proper)
    then show ?thesis by (simp add: filepath_Clean_def)
  qed
  have "filepath_Clean (filepath_Join src [fst entry]) = filepath_Clean src @ [fst entry]"
    using Clean_acc_snoc [OF en, of "[]" "filepath_Clean src"] idem j
    by (simp add: filepath_Clean_def)
  then have "pathlen (filepath_Clean src)
             < pathlen (filepath_Clean (filepath_Join src [fst entry]))"
    by (simp add: pathlen_def)
  with small show "((fs2, filepath_Join src [fst entry], filepath_Join dst [fst entry]),
                    fs, src, dst)
        \<in> measure (\<lambda>(fs, src, dst). PATH_MAX - pathlen (filepath_Clean src))"
    by simp
qed

subsection \<open>processPath and processFile\<close>

text \<open>
  What the program prints and logs, one constructor for each message of the source. A
  tracked item is the list of the components of its relative path.
\<close>

datatype msg =
    SkipSymlink path
  | ErrCopyDir path errno | UpdatedDir path | CopiedDir path | ErrRemoveDir path errno
  | ErrCopyFile path errno | UpdatedFile path | CopiedFile path | ErrRemoveFile path errno
  | ErrCopy path errno | Updated path | Copied path
  | ErrAccess path errno | NotInHome path
  | ErrSymlink path errno | CreatedSymlink path | NoBackup path
  | ErrGitAdd errno | ErrGitCommit errno | ErrGitPush errno

text \<open>
  The second half of both procedures: when an lstat of the source says that it does not
  exist and a stat of the destination succeeds, the link is made.
\<close>

definition linkStep :: "path \<Rightarrow> path \<Rightarrow> path \<Rightarrow> fs \<Rightarrow> fs \<times> msg list" where
  "linkStep item sourcePath destPath fs =
     (case os_Lstat fs sourcePath of
        Inr fi \<Rightarrow> (fs, [])
      | Inl err \<Rightarrow>
          (if os_IsNotExist err then
             (case os_Stat fs destPath of
                Inr fi \<Rightarrow>
                  (case os_Symlink fs destPath sourcePath of
                     (Some e, fs') \<Rightarrow> (fs', [ErrSymlink item e])
                   | (None, fs') \<Rightarrow> (fs', [CreatedSymlink item]))
              | Inl e \<Rightarrow> (fs, [NoBackup item]))
           else (fs, [])))"

text \<open>\<^verbatim>\<open>processPath\<close> of the variant that handles directories.\<close>

definition processPath :: "path \<Rightarrow> path \<Rightarrow> path \<Rightarrow> bool \<Rightarrow> fs \<Rightarrow> fs \<times> msg list" where
  "processPath item homeDir dotfilesRepoDir isSync fs =
     (let sourcePath = filepath_Join homeDir item;
          destPath = filepath_Join dotfilesRepoDir item;
          (fs1, log1) =
            (case os_Lstat fs sourcePath of
               Inr fi \<Rightarrow>
                 (if isSymlink fi then (fs, [SkipSymlink item])
                  else if isDir fi then
                    (case copyDir fs sourcePath destPath of
                       (cerr, fsc) \<Rightarrow>
                         (case os_RemoveAll fsc sourcePath of
                            (rerr, fsr) \<Rightarrow>
                              (fsr,
                               (case cerr of
                                  Some e \<Rightarrow> [ErrCopyDir item e]
                                | None \<Rightarrow> [if isSync then UpdatedDir item else CopiedDir item])
                               @ (case rerr of
                                    Some e \<Rightarrow> [ErrRemoveDir item e]
                                  | None \<Rightarrow> []))))
                  else
                    (case copyFile fs sourcePath destPath of
                       (cerr, fsc) \<Rightarrow>
                         (case os_Remove fsc sourcePath of
                            (rerr, fsr) \<Rightarrow>
                              (fsr,
                               (case cerr of
                                  Some e \<Rightarrow> [ErrCopyFile item e]
                                | None \<Rightarrow> [if isSync then UpdatedFile item else CopiedFile item])
                               @ (case rerr of
                                    Some e \<Rightarrow> [ErrRemoveFile item e]
                                  | None \<Rightarrow> [])))))
             | Inl err \<Rightarrow>
                 (if \<not> os_IsNotExist err then (fs, [ErrAccess item err])
                  else (fs, [NotInHome item])));
          (fs2, log2) = linkStep item sourcePath destPath fs1
      in (fs2, log1 @ log2))"

text \<open>\<^verbatim>\<open>processFile\<close> of the variant in \<^verbatim>\<open>main.go\<close>, which has no case for directories.\<close>

definition processFile :: "path \<Rightarrow> path \<Rightarrow> path \<Rightarrow> bool \<Rightarrow> fs \<Rightarrow> fs \<times> msg list" where
  "processFile file homeDir dotfilesRepoDir isSync fs =
     (let sourcePath = filepath_Join homeDir file;
          destPath = filepath_Join dotfilesRepoDir file;
          (fs1, log1) =
            (case os_Lstat fs sourcePath of
               Inr fi \<Rightarrow>
                 (if isSymlink fi then (fs, [SkipSymlink file])
                  else
                    (case copyFile fs sourcePath destPath of
                       (cerr, fsc) \<Rightarrow>
                         (case os_Remove fsc sourcePath of
                            (rerr, fsr) \<Rightarrow>
                              (fsr,
                               (case cerr of
                                  Some e \<Rightarrow> [ErrCopy file e]
                                | None \<Rightarrow> [if isSync then Updated file else Copied file])
                               @ (case rerr of
                                    Some e \<Rightarrow> [ErrRemoveFile file e]
                                  | None \<Rightarrow> [])))))
             | Inl err \<Rightarrow>
                 (if \<not> os_IsNotExist err then (fs, [ErrAccess file err])
                  else (fs, [NotInHome file])));
          (fs2, log2) = linkStep file sourcePath destPath fs1
      in (fs2, log1 @ log2))"

subsection \<open>initCmd and syncCmd\<close>

text \<open>
  What the commands read from the process: the home directory, the working directory, and
  the outcome of each git command. git works on its own metadata, which is not part of the
  modelled tree, so only its exit status is kept.
\<close>

record env =
  UserHomeDir :: "errno + path"
  Getwd :: "errno + path"
  runGitCommand :: "path \<Rightarrow> string list \<Rightarrow> errno option"

text \<open>
  The error a command returns: an error of the operating system, or the one \<open>syncCmd\<close>
  makes itself, \<^verbatim>\<open>dotfiles repository directory does not exist. Run 'gotfiles init' first\<close>.
\<close>

datatype cmd_error = OsError errno | NoRepository

definition gitSteps :: "env \<Rightarrow> path \<Rightarrow> string \<Rightarrow> msg list" where
  "gitSteps ev repoDir message =
     (case runGitCommand ev repoDir [''add'', ''.''] of
        Some e \<Rightarrow> [ErrGitAdd e] | None \<Rightarrow> [])
     @ (case runGitCommand ev repoDir [''commit'', ''-m'', message] of
          Some e \<Rightarrow> [ErrGitCommit e] | None \<Rightarrow> [])
     @ (case runGitCommand ev repoDir [''push''] of
          Some e \<Rightarrow> [ErrGitPush e] | None \<Rightarrow> [])"

text \<open>The loop over the items: each is processed on the state the one before left.\<close>

fun forItems :: "(path \<Rightarrow> fs \<Rightarrow> fs \<times> msg list) \<Rightarrow> path list \<Rightarrow> fs \<Rightarrow> fs \<times> msg list" where
  "forItems f [] fs = (fs, [])"
| "forItems f (item # items) fs =
     (case f item fs of
        (fs1, log1) \<Rightarrow> (case forItems f items fs1 of (fs2, log2) \<Rightarrow> (fs2, log1 @ log2)))"


definition syncCmd :: "env \<Rightarrow> path list \<Rightarrow> fs \<Rightarrow> cmd_error option \<times> fs \<times> msg list" where
  "syncCmd ev items fs =
     (case UserHomeDir ev of
        Inl e \<Rightarrow> (Some (OsError e), fs, [])
      | Inr homeDir \<Rightarrow>
          (case Getwd ev of
             Inl e \<Rightarrow> (Some (OsError e), fs, [])
           | Inr repoDir \<Rightarrow>
               (let dotfilesRepoDir = filepath_Join repoDir [''dotfiles'']
                in (case os_Stat fs dotfilesRepoDir of
                      Inl e \<Rightarrow>
                        (if os_IsNotExist e then (Some NoRepository, fs, [])
                         else
                           (case forItems (\<lambda>item. processPath item homeDir dotfilesRepoDir True)
                                   items fs of
                              (fs2, log) \<Rightarrow>
                                (None, fs2, log @ gitSteps ev repoDir ''Sync dotfiles changes'')))
                    | Inr fi \<Rightarrow>
                        (case forItems (\<lambda>item. processPath item homeDir dotfilesRepoDir True)
                                items fs of
                           (fs2, log) \<Rightarrow>
                             (None, fs2, log @ gitSteps ev repoDir ''Sync dotfiles changes''))))))"

section \<open>Example states\<close>

definition exEnv :: env where
  "exEnv = \<lparr>UserHomeDir = Inr [''h''], Getwd = Inr [''r''], runGitCommand = (\<lambda>d a. None)\<rparr>"

text \<open>A home directory with one dotfile, and a working directory without repository.\<close>

definition exFresh :: fs where
  "exFresh = [([], Dir 493), ([''h''], Dir 493), ([''h'', ''.bashrc''], File 420 [1, 2, 3]),
              ([''r''], Dir 493)]"

text \<open>The same after a migration: the dotfile is a link into the repository.\<close>

definition exLinked :: fs where
  "exLinked = [([], Dir 493), ([''h''], Dir 493), ([''r''], Dir 493),
               ([''r'', ''dotfiles''], Dir 493),
               ([''r'', ''dotfiles'', ''.bashrc''], File 438 [1, 2, 3]),
               ([''h'', ''.bashrc''], Symlink [''r'', ''dotfiles'', ''.bashrc''])]"

text \<open>An empty home directory and an empty repository.\<close>

definition exEmpty :: fs where
  "exEmpty = [([], Dir 493), ([''h''], Dir 493), ([''r''], Dir 493),
              ([''r'', ''dotfiles''], Dir 493)]"



text \<open>
  A nested dotfile in the home directory, and a repository in which a regular file stands
  where the directory of its copy would have to be.
\<close>

definition exBlocked :: fs where
  "exBlocked = [([], Dir 493), ([''h''], Dir 493), ([''h'', ''.config''], Dir 448),
                ([''h'', ''.config'', ''app''], File 420 [1, 2, 3]),
                ([''r''], Dir 493), ([''r'', ''dotfiles''], Dir 493),
                ([''r'', ''dotfiles'', ''.config''], File 420 [])]"




section \<open>Predicates on states\<close>

text \<open>
  The notions the facts below are stated with. \<open>shape\<close> forgets the mode of a node and
  the bytes of a file; \<open>grows\<close> says that every node is still there with its shape;
  \<open>fileish\<close> holds of a place that is empty or holds a regular file; \<open>adds_dirs\<close>
  says that the second state is the first with directories at places that were empty;
  \<open>wf_fs\<close> and \<open>closed\<close> say that every node but the root lies in a directory;
  \<open>locate\<close> is resolution with the last link followed, without the bound on the length
  of the path; \<open>copy_of\<close>, \<open>copied\<close>, \<open>only_below\<close> and \<open>inv\<close> describe the copy
  of a directory.
\<close>

fun shape :: "node \<Rightarrow> node" where
  "shape (File pm bs) = File 0 []"
| "shape (Dir pm) = Dir 0"
| "shape (Symlink t) = Symlink t"

definition grows :: "(path \<rightharpoonup> node) \<Rightarrow> (path \<rightharpoonup> node) \<Rightarrow> bool" where
  "grows m m' = (\<forall>p n. m p = Some n \<longrightarrow> (\<exists>n'. m' p = Some n' \<and> shape n' = shape n))"

fun fileish :: "node option \<Rightarrow> bool" where
  "fileish None = True"
| "fileish (Some (File pm bs)) = True"
| "fileish (Some n) = False"

definition adds_dirs :: "(path \<rightharpoonup> node) \<Rightarrow> (path \<rightharpoonup> node) \<Rightarrow> bool" where
  "adds_dirs m m' = (\<forall>x. m' x = m x \<or> (m x = None \<and> (\<exists>pm. m' x = Some (Dir pm))))"








section \<open>Facts about path resolution\<close>

text \<open>One step of \<open>walk\<close>, by what the directory holds under the next name.\<close>

lemma walk_Cons_link:
  "m cur = Some (Dir pm) \<Longrightarrow> m (cur @ [c]) = Some (Symlink t) \<Longrightarrow>
   walk m f k cur (c # cs) =
     (if cs = [] \<and> \<not> f then Inr (cur @ [c])
      else (case k of 0 \<Rightarrow> Inl ELOOP | Suc k' \<Rightarrow> walk m f k' [] (t @ cs)))"
  by simp

lemma walk_Cons_plain:
  "m cur = Some (Dir pm) \<Longrightarrow> \<forall>t. m (cur @ [c]) \<noteq> Some (Symlink t) \<Longrightarrow>
   walk m f k cur (c # cs) = (if cs = [] then Inr (cur @ [c]) else walk m f k (cur @ [c]) cs)"
  by (simp split: option.splits node.splits)

lemma walk_Cons_Inr_Dir:
  "walk m f k cur (c # cs) = Inr q \<Longrightarrow> \<exists>pm. m cur = Some (Dir pm)"
  by (simp split: option.splits node.splits)

lemma walk_induct2 [case_names Nil Cons]:
  fixes P :: "(path \<rightharpoonup> node) \<Rightarrow> bool \<Rightarrow> nat \<Rightarrow> path \<Rightarrow> path \<Rightarrow> bool"
  assumes n: "\<And>k cur. P m f k cur []"
    and p: "\<And>k cur c cs.
          P m f k (cur @ [c]) cs \<Longrightarrow>
          (\<And>t k'. k = Suc k' \<Longrightarrow> P m f k' [] (t @ cs))
          \<Longrightarrow> P m f k cur (c # cs)"
  shows "P m f k cur rest"
proof (induction k arbitrary: cur rest rule: less_induct)
  case (less k)
  have "P m f k cur' rest'" for cur' rest'
  proof (induction rest' arbitrary: cur')
    case Nil
    show ?case by (rule n)
  next
    case (Cons c cs)
    show ?case
    proof (rule p)
      show "P m f k (cur' @ [c]) cs" by (rule Cons.IH)
    next
      fix t k' assume "k = Suc k'"
      then have "k' < k" by simp
      then show "P m f k' [] (t @ cs)" by (rule less.IH)
    qed
  qed
  then show ?case .
qed

declare walk.simps(2) [simp del]

text \<open>
  One state grows into another when every node of the first is still there with its kind:
  a directory is a directory (whatever its mode), a link is the same link, a file is a
  file (whatever its bytes). Creating nodes and writing files grows the state.
\<close>

lemma grows_refl: "grows m m"
  by (simp add: grows_def)

lemma grows_trans: "grows a b \<Longrightarrow> grows b c \<Longrightarrow> grows a c"
  unfolding grows_def by fastforce

lemma shape_Dir: "shape n = shape (Dir pm) \<Longrightarrow> \<exists>pm'. n = Dir pm'"
  by (cases n) auto

lemma shape_File: "shape n = shape (File pm bs) \<Longrightarrow> \<exists>pm' bs'. n = File pm' bs'"
  by (cases n) auto

lemma shape_Symlink: "shape n = shape (Symlink t) \<Longrightarrow> n = Symlink t"
  by (cases n) auto

lemma grows_Dir: "grows m m' \<Longrightarrow> m p = Some (Dir pm) \<Longrightarrow> \<exists>pm'. m' p = Some (Dir pm')"
  unfolding grows_def using shape_Dir by blast

lemma grows_Symlink: "grows m m' \<Longrightarrow> m p = Some (Symlink t) \<Longrightarrow> m' p = Some (Symlink t)"
  unfolding grows_def using shape_Symlink by blast

lemma grows_not_link:
  "grows m m' \<Longrightarrow> m p = Some n \<Longrightarrow> \<not> isSymlink n \<Longrightarrow> \<forall>t. m' p \<noteq> Some (Symlink t)"
  unfolding grows_def by (cases n) (use shape_Dir shape_File in fastforce)+

lemma walk_grows:
  "grows m m' \<Longrightarrow> walk m f k cur rest = Inr q \<Longrightarrow> rest = [] \<or> m q \<noteq> None
   \<Longrightarrow> walk m' f k cur rest = Inr q"
proof (induction m f k cur rest rule: walk_induct2)
  case (Nil k cur)
  then show ?case by simp
next
  case (Cons k cur c cs)
  from walk_Cons_Inr_Dir [OF Cons.prems(2)] obtain pm where cur: "m cur = Some (Dir pm)"
    by blast
  then obtain pm' where cur': "m' cur = Some (Dir pm')"
    using grows_Dir [OF Cons.prems(1)] by blast
  have ex: "m q \<noteq> None" using Cons.prems(3) by simp
  show ?case
  proof (cases "\<exists>t. m (cur @ [c]) = Some (Symlink t)")
    case True
    then obtain t where t: "m (cur @ [c]) = Some (Symlink t)" by blast
    then have t': "m' (cur @ [c]) = Some (Symlink t)"
      using grows_Symlink [OF Cons.prems(1)] by blast
    show ?thesis
    proof (cases "cs = [] \<and> \<not> f")
      case True
      then show ?thesis
        using Cons.prems(2) by (simp add: walk_Cons_link [OF cur t] walk_Cons_link [OF cur' t'])
    next
      case False
      then obtain k' where k: "k = Suc k'" and w: "walk m f k' [] (t @ cs) = Inr q"
        using Cons.prems(2) by (cases k) (auto simp: walk_Cons_link [OF cur t])
      have "walk m' f k' [] (t @ cs) = Inr q"
        using Cons.IH(2) [OF k Cons.prems(1) w] ex by simp
      then show ?thesis
        using False k by (auto simp: walk_Cons_link [OF cur' t'])
    qed
  next
    case False
    then have nl: "\<forall>t. m (cur @ [c]) \<noteq> Some (Symlink t)" by simp
    show ?thesis
    proof (cases "m (cur @ [c])")
      case None
      have "cs \<noteq> []"
      proof
        assume "cs = []"
        then have "q = cur @ [c]"
          using Cons.prems(2) by (simp add: walk_Cons_plain [OF cur nl])
        with None ex show False by simp
      qed
      then have w: "walk m f k (cur @ [c]) cs = Inr q"
        using Cons.prems(2) by (simp add: walk_Cons_plain [OF cur nl])
      from \<open>cs \<noteq> []\<close> obtain a l where "cs = a # l" by (cases cs) auto
      with w have "\<exists>pm. m (cur @ [c]) = Some (Dir pm)"
        using walk_Cons_Inr_Dir by blast
      with None show ?thesis by simp
    next
      case (Some n)
      then have "\<not> isSymlink n" using nl by (cases n) auto
      then have nl': "\<forall>t. m' (cur @ [c]) \<noteq> Some (Symlink t)"
        using grows_not_link [OF Cons.prems(1) Some] by blast
      show ?thesis
      proof (cases "cs = []")
        case True
        then show ?thesis
          using Cons.prems(2)
          by (simp add: walk_Cons_plain [OF cur nl] walk_Cons_plain [OF cur' nl'])
      next
        case False
        then have "walk m f k (cur @ [c]) cs = Inr q"
          using Cons.prems(2) by (simp add: walk_Cons_plain [OF cur nl])
        then have "walk m' f k (cur @ [c]) cs = Inr q"
          using Cons.IH(1) [OF Cons.prems(1)] ex by simp
        then show ?thesis
          using False by (simp add: walk_Cons_plain [OF cur' nl'])
      qed
    qed
  qed
qed

text \<open>
  Resolution looks only at directories and links: a place that holds a file, or nothing,
  can be given a file, or nothing, without changing where a path that resolved leads.
\<close>

lemma fileish_not_Dir: "fileish v \<Longrightarrow> v \<noteq> Some (Dir pm)"
  by auto







subsection \<open>Making a link where nothing is\<close>






subsection \<open>What the calls that create and write leave in place\<close>

text \<open>\<open>adds_dirs\<close>: the second state is the first with directories at places that were empty.\<close>

lemma adds_dirs_refl: "adds_dirs m m"
  by (simp add: adds_dirs_def)

lemma adds_dirs_trans: "adds_dirs a b \<Longrightarrow> adds_dirs b c \<Longrightarrow> adds_dirs a c"
  unfolding adds_dirs_def
proof
  fix x
  assume ab: "\<forall>x. b x = a x \<or> (a x = None \<and> (\<exists>pm. b x = Some (Dir pm)))"
    and bc: "\<forall>x. c x = b x \<or> (b x = None \<and> (\<exists>pm. c x = Some (Dir pm)))"
  from ab have "b x = a x \<or> (a x = None \<and> (\<exists>pm. b x = Some (Dir pm)))" ..
  moreover from bc have "c x = b x \<or> (b x = None \<and> (\<exists>pm. c x = Some (Dir pm)))" ..
  ultimately show "c x = a x \<or> (a x = None \<and> (\<exists>pm. c x = Some (Dir pm)))"
    by auto
qed

lemma adds_dirs_grows: "adds_dirs m m' \<Longrightarrow> grows m m'"
  unfolding adds_dirs_def grows_def
proof (intro allI impI)
  fix p n
  assume a: "\<forall>x. m' x = m x \<or> (m x = None \<and> (\<exists>pm. m' x = Some (Dir pm)))" and n: "m p = Some n"
  from a have "m' p = m p \<or> (m p = None \<and> (\<exists>pm. m' p = Some (Dir pm)))" ..
  with n show "\<exists>n'. m' p = Some n' \<and> shape n' = shape n" by auto
qed

lemma os_Mkdir_adds: "adds_dirs (map_of fs) (map_of (snd (os_Mkdir fs p pm)))"
  by (auto simp: os_Mkdir_def adds_dirs_def update_conv' split: sum.splits option.splits)

declare os_MkdirAll.simps [simp del]

lemma os_MkdirAll_adds: "adds_dirs (map_of fs) (map_of (snd (os_MkdirAll fs p pm)))"
proof (induction fs p pm rule: os_MkdirAll.induct)
  case (1 fs p pm)
  show ?case
  proof (cases "os_Stat fs p")
    case (Inr n)
    then show ?thesis
      by (subst os_MkdirAll.simps) (simp add: adds_dirs_refl)
  next
    case (Inl e0)
    let ?par = "if 1 < length p then os_MkdirAll fs (butlast p) pm else (None, fs)"
    obtain r1 fs1 where par: "?par = (r1, fs1)" by (cases ?par)
    have a1: "adds_dirs (map_of fs) (map_of fs1)"
    proof (cases "1 < length p")
      case True
      then show ?thesis using "1.IH" [OF Inl True] par by simp
    next
      case False
      then show ?thesis using par by (simp add: adds_dirs_refl)
    qed
    show ?thesis
    proof (cases r1)
      case (Some e)
      then show ?thesis
        using Inl par a1 by (subst os_MkdirAll.simps) simp
    next
      case None
      obtain r2 fs2 where mk: "os_Mkdir fs1 p pm = (r2, fs2)" by (cases "os_Mkdir fs1 p pm")
      have a2: "adds_dirs (map_of fs1) (map_of fs2)"
        using os_Mkdir_adds [of fs1 p pm] mk by simp
      have "snd (os_MkdirAll fs p pm) = fs1 \<or> snd (os_MkdirAll fs p pm) = fs2"
        using Inl par None mk
        by (subst (1 2) os_MkdirAll.simps) (simp split: option.splits sum.splits)
      then show ?thesis
        using a1 adds_dirs_trans [OF a1 a2] by auto
    qed
  qed
qed

lemma grows_upd_File:
  "fileish (m q) \<Longrightarrow> grows m (m(q \<mapsto> File pm bs))"
  unfolding grows_def by (cases "m q" rule: fileish.cases) auto

lemma os_Create_grows: "grows (map_of fs) (map_of (snd (os_Create fs p)))"
proof (cases "resolve fs True p")
  case (Inl e)
  then show ?thesis by (simp add: os_Create_def grows_refl)
next
  case (Inr q)
  show ?thesis
  proof (cases "map_of fs q")
    case None
    then show ?thesis
      using Inr grows_upd_File [of "map_of fs" q 438 "[]"]
      by (simp add: os_Create_def grows_refl update_conv')
  next
    case (Some n)
    show ?thesis
    proof (cases n)
      case (File pm bs)
      then show ?thesis
        using Inr Some grows_upd_File [of "map_of fs" q pm "[]"]
        by (simp add: os_Create_def update_conv')
    next
      case (Dir pm)
      then show ?thesis using Inr Some by (simp add: os_Create_def grows_refl)
    next
      case (Symlink t)
      then show ?thesis using Inr Some by (simp add: os_Create_def grows_refl)
    qed
  qed
qed

lemma io_Copy_grows: "grows (map_of fs) (map_of (snd (io_Copy fs out inp)))"
proof -
  have "snd (io_Copy fs out inp) = fs
        \<or> (\<exists>pm bs' bs. map_of fs out = Some (File pm bs')
             \<and> snd (io_Copy fs out inp) = AList.update out (File pm bs) fs)"
    by (auto simp: io_Copy_def split: option.splits node.splits)
  then show ?thesis
  proof
    assume "snd (io_Copy fs out inp) = fs"
    then show ?thesis by (simp add: grows_refl)
  next
    assume "\<exists>pm bs' bs. map_of fs out = Some (File pm bs')
             \<and> snd (io_Copy fs out inp) = AList.update out (File pm bs) fs"
    then obtain pm bs' bs where o: "map_of fs out = Some (File pm bs')"
      and r: "snd (io_Copy fs out inp) = AList.update out (File pm bs) fs" by blast
    have "fileish (map_of fs out)" using o by simp
    then have "grows (map_of fs) ((map_of fs)(out \<mapsto> File pm bs))"
      by (rule grows_upd_File)
    then show ?thesis
      using r by (simp add: update_conv')
  qed
qed

lemma copyFile_grows: "grows (map_of fs) (map_of (snd (copyFile fs src dst)))"
proof (cases "os_Open fs src")
  case (Inl e)
  then show ?thesis by (simp add: copyFile_def grows_refl)
next
  case (Inr inp)
  obtain r1 fs1 where mk: "os_MkdirAll fs (filepath_Dir dst) 493 = (r1, fs1)"
    by (cases "os_MkdirAll fs (filepath_Dir dst) 493")
  have g1: "grows (map_of fs) (map_of fs1)"
    using os_MkdirAll_adds [of fs "filepath_Dir dst" 493] mk adds_dirs_grows by simp
  show ?thesis
  proof (cases r1)
    case (Some e)
    then show ?thesis using Inr mk g1 by (simp add: copyFile_def)
  next
    case None
    obtain r2 fs2 where cr: "os_Create fs1 dst = (r2, fs2)" by (cases "os_Create fs1 dst")
    have g2: "grows (map_of fs) (map_of fs2)"
      using os_Create_grows [of fs1 dst] cr grows_trans [OF g1] by simp
    show ?thesis
    proof (cases r2)
      case (Inl e)
      then show ?thesis using Inr mk None cr g2 by (simp add: copyFile_def)
    next
      case (Inr out)
      have "grows (map_of fs2) (map_of (snd (io_Copy fs2 out inp)))"
        by (rule io_Copy_grows)
      then have "grows (map_of fs) (map_of (snd (io_Copy fs2 out inp)))"
        by (rule grows_trans [OF g2])
      then show ?thesis
        using \<open>os_Open fs src = Inr inp\<close> mk None cr Inr by (simp add: copyFile_def)
    qed
  qed
qed

declare copyDir.simps [simp del]

lemma fold_grows:
  assumes step: "\<And>entry err fs2. entry \<in> set es \<Longrightarrow>
                   grows (map_of fs2) (map_of (snd (stp entry (err, fs2))))"
  shows "grows (map_of fsa) (map_of (snd (fold stp es (err, fsa))))"
  using step
proof (induction es arbitrary: err fsa)
  case Nil
  then show ?case by (simp add: grows_refl)
next
  case (Cons e es)
  obtain err1 fs1 where s: "stp e (err, fsa) = (err1, fs1)" by (cases "stp e (err, fsa)")
  have g1: "grows (map_of fsa) (map_of fs1)"
    using Cons.prems [of e fsa err] s by simp
  have "grows (map_of fs1) (map_of (snd (fold stp es (err1, fs1))))"
    by (rule Cons.IH) (simp add: Cons.prems)
  then show ?case
    using g1 s grows_trans by simp
qed

lemma copyDir_grows: "grows (map_of fs) (map_of (snd (copyDir fs src dst)))"
proof (induction fs src dst rule: copyDir.induct)
  case (1 fs src dst)
  show ?case
  proof (cases "os_Stat fs src")
    case (Inl e)
    then show ?thesis by (subst copyDir.simps) (simp add: grows_refl)
  next
    case (Inr srcInfo)
    obtain r1 fs1 where mk: "os_MkdirAll fs dst (modeOf srcInfo) = (r1, fs1)"
      by (cases "os_MkdirAll fs dst (modeOf srcInfo)")
    have g1: "grows (map_of fs) (map_of fs1)"
      using os_MkdirAll_adds [of fs dst "modeOf srcInfo"] mk adds_dirs_grows by simp
    show ?thesis
    proof (cases r1)
      case (Some e)
      then show ?thesis using Inr mk g1 by (subst copyDir.simps) simp
    next
      case None
      show ?thesis
      proof (cases "ioutil_ReadDir fs1 src")
        case (Inl e)
        then show ?thesis using Inr mk None g1 by (subst copyDir.simps) simp
      next
        case rd: (Inr entries)
        let ?stp = "\<lambda>entry (err, fs2).
                      (case err of
                         Some e \<Rightarrow> (Some e, fs2)
                       | None \<Rightarrow>
                           (if isDir (snd entry)
                            then copyDir fs2 (filepath_Join src [fst entry])
                                   (filepath_Join dst [fst entry])
                            else copyFile fs2 (filepath_Join src [fst entry])
                                   (filepath_Join dst [fst entry])))"
        have "grows (map_of fs1) (map_of (snd (fold ?stp entries (None, fs1))))"
        proof (rule fold_grows)
          fix entry :: "string \<times> node" and err :: "errno option" and fs2 :: fs
          assume mem: "entry \<in> set entries"
          show "grows (map_of fs2) (map_of (snd (?stp entry (err, fs2))))"
          proof (cases err)
            case (Some e)
            then show ?thesis by (simp add: grows_refl)
          next
            case None': None
            show ?thesis
            proof (cases "isDir (snd entry)")
              case True
              have "grows (map_of fs2) (map_of (snd (copyDir fs2 (filepath_Join src [fst entry])
                                   (filepath_Join dst [fst entry]))))"
                using "1.IH" [OF Inr mk [symmetric] None rd mem None' True] .
              then show ?thesis using None' True by simp
            next
              case False
              then show ?thesis using None' copyFile_grows by simp
            qed
          qed
        qed
        then have "grows (map_of fs) (map_of (snd (fold ?stp entries (None, fs1))))"
          by (rule grows_trans [OF g1])
        then show ?thesis
          using Inr mk None rd by (subst copyDir.simps) simp
      qed
    qed
  qed
qed

text \<open>
  Removing nodes: a path that resolved without following its last component resolves to
  the same place, or meets a place that is gone.
\<close>

lemma walk_restrict:
  "\<forall>x. m' x = m x \<or> m' x = None \<Longrightarrow> \<not> f \<Longrightarrow> walk m f k cur rest = Inr r
   \<Longrightarrow> walk m' f k cur rest = Inr r \<or> walk m' f k cur rest = Inl ENOENT"
proof (induction m f k cur rest rule: walk_induct2)
  case (Nil k cur)
  then show ?case by simp
next
  case (Cons k cur c cs)
  from walk_Cons_Inr_Dir [OF Cons.prems(3)] obtain pm where cur: "m cur = Some (Dir pm)"
    by blast
  have gone: "walk m' f k x (y # ys) = Inl ENOENT" if "m' x = None" for x y ys
    using that by (simp add: walk.simps(2))
  show ?case
  proof (cases "m' cur")
    case None
    then show ?thesis by (simp add: gone)
  next
    case (Some n)
    then have cur': "m' cur = Some (Dir pm)"
      using Cons.prems(1) cur by (metis option.distinct(1))
    show ?thesis
    proof (cases "m' (cur @ [c])")
      case None
      then have nl': "\<forall>t. m' (cur @ [c]) \<noteq> Some (Symlink t)" by simp
      show ?thesis
      proof (cases "cs = []")
        case True
        have "r = cur @ [c]"
        proof (cases "\<exists>t. m (cur @ [c]) = Some (Symlink t)")
          case True
          then obtain t where t: "m (cur @ [c]) = Some (Symlink t)" by blast
          show ?thesis
            using Cons.prems(2,3) \<open>cs = []\<close> by (simp add: walk_Cons_link [OF cur t])
        next
          case False
          then have nl: "\<forall>t. m (cur @ [c]) \<noteq> Some (Symlink t)" by simp
          show ?thesis
            using Cons.prems(3) \<open>cs = []\<close> by (simp add: walk_Cons_plain [OF cur nl])
        qed
        then show ?thesis
          using True by (simp add: walk_Cons_plain [OF cur' nl'])
      next
        case False
        then obtain a l where "cs = a # l" by (cases cs) auto
        then have "walk m' f k (cur @ [c]) cs = Inl ENOENT"
          using None by (simp add: gone)
        then show ?thesis
          using False by (simp add: walk_Cons_plain [OF cur' nl'])
      qed
    next
      case (Some n')
      then have same: "m' (cur @ [c]) = m (cur @ [c])"
        using Cons.prems(1) by (metis option.distinct(1))
      show ?thesis
      proof (cases "\<exists>t. m (cur @ [c]) = Some (Symlink t)")
        case True
        then obtain t where t: "m (cur @ [c]) = Some (Symlink t)" by blast
        then have t': "m' (cur @ [c]) = Some (Symlink t)" using same by simp
        show ?thesis
        proof (cases "cs = []")
          case True
          then show ?thesis
            using Cons.prems(2,3)
            by (simp add: walk_Cons_link [OF cur t] walk_Cons_link [OF cur' t'])
        next
          case False
          then obtain k' where k: "k = Suc k'" and w: "walk m f k' [] (t @ cs) = Inr r"
            using Cons.prems(3) by (cases k) (auto simp: walk_Cons_link [OF cur t])
          have "walk m' f k' [] (t @ cs) = Inr r \<or> walk m' f k' [] (t @ cs) = Inl ENOENT"
            by (rule Cons.IH(2) [OF k Cons.prems(1,2) w])
          then show ?thesis
            using False k by (auto simp: walk_Cons_link [OF cur' t'])
        qed
      next
        case False
        then have nl: "\<forall>t. m (cur @ [c]) \<noteq> Some (Symlink t)" by simp
        then have nl': "\<forall>t. m' (cur @ [c]) \<noteq> Some (Symlink t)" using same by simp
        show ?thesis
        proof (cases "cs = []")
          case True
          then show ?thesis
            using Cons.prems(3)
            by (simp add: walk_Cons_plain [OF cur nl] walk_Cons_plain [OF cur' nl'])
        next
          case False
          then have w: "walk m f k (cur @ [c]) cs = Inr r"
            using Cons.prems(3) by (simp add: walk_Cons_plain [OF cur nl])
          have "walk m' f k (cur @ [c]) cs = Inr r \<or> walk m' f k (cur @ [c]) cs = Inl ENOENT"
            by (rule Cons.IH(1) [OF Cons.prems(1,2) w])
          then show ?thesis
            using False by (simp add: walk_Cons_plain [OF cur' nl'])
        qed
      qed
    qed
  qed
qed

subsection \<open>Removing the original\<close>

lemma map_of_filter_key:
  "map_of (filter (\<lambda>(r, n). P r) fs) x = (if P x then map_of fs x else None)"
  by (induction fs) auto

lemma resolve_walk:
  "resolve fs f p = Inr q \<longleftrightarrow> pathlen p < PATH_MAX \<and> walk (map_of fs) f MAXSYMLINKS [] p = Inr q"
  by (auto simp: resolve_def)

lemma os_Lstat_Inr:
  "os_Lstat fs p = Inr n \<longleftrightarrow> (\<exists>q. resolve fs False p = Inr q \<and> map_of fs q = Some n)"
  by (auto simp: os_Lstat_def split: sum.splits option.splits)


lemma resolve_grows:
  assumes "resolve fs f p = Inr q" and "map_of fs q \<noteq> None" and "grows (map_of fs) (map_of fs')"
  shows "resolve fs' f p = Inr q"
  using assms walk_grows [of "map_of fs" "map_of fs'" f MAXSYMLINKS "[]" p q]
  by (simp add: resolve_walk)

lemma os_Lstat_after_removal:
  assumes r: "resolve fsc False p = Inr q"
    and sub: "\<forall>x. map_of fsr x = map_of fsc x \<or> map_of fsr x = None"
    and gone: "map_of fsr q = None"
  shows "os_Lstat fsr p = Inl ENOENT"
proof -
  from r have len: "pathlen p < PATH_MAX"
    and w: "walk (map_of fsc) False MAXSYMLINKS [] p = Inr q"
    by (simp_all add: resolve_walk)
  have "walk (map_of fsr) False MAXSYMLINKS [] p = Inr q
        \<or> walk (map_of fsr) False MAXSYMLINKS [] p = Inl ENOENT"
    by (rule walk_restrict [OF sub _ w]) simp
  then show ?thesis
    using len gone by (auto simp: os_Lstat_def resolve_def)
qed

lemma os_Remove_original:
  assumes l: "os_Lstat fs p = Inr fi" and ns: "\<not> isSymlink fi" and nd: "\<not> isDir fi"
    and g: "grows (map_of fs) (map_of fsc)"
  shows "\<exists>fsr. os_Remove fsc p = (None, fsr) \<and> os_Lstat fsr p = Inl ENOENT"
proof -
  from l obtain q where r: "resolve fs False p = Inr q" and n: "map_of fs q = Some fi"
    by (auto simp: os_Lstat_Inr)
  obtain pm bs where fi: "fi = File pm bs" using ns nd by (cases fi) auto
  have r': "resolve fsc False p = Inr q"
    using resolve_grows [OF r _ g] n by simp
  obtain pm' bs' where n': "map_of fsc q = Some (File pm' bs')"
    using g n fi shape_File unfolding grows_def by blast
  have rm: "os_Remove fsc p = (None, AList.delete q fsc)"
    using r' n' by (simp add: os_Remove_def)
  have "os_Lstat (AList.delete q fsc) p = Inl ENOENT"
    by (rule os_Lstat_after_removal [OF r']) (simp_all add: delete_conv')
  with rm show ?thesis by simp
qed

lemma os_RemoveAll_original:
  assumes l: "os_Lstat fs p = Inr fi" and g: "grows (map_of fs) (map_of fsc)"
  shows "\<exists>fsr. os_RemoveAll fsc p = (None, fsr) \<and> os_Lstat fsr p = Inl ENOENT"
proof -
  from l obtain q where r: "resolve fs False p = Inr q" and n: "map_of fs q = Some fi"
    by (auto simp: os_Lstat_Inr)
  have r': "resolve fsc False p = Inr q"
    using resolve_grows [OF r _ g] n by simp
  let ?fsr = "filter (\<lambda>(r, n). take (length q) r \<noteq> q) fsc"
  have rm: "os_RemoveAll fsc p = (None, ?fsr)"
    using r' by (simp add: os_RemoveAll_def)
  have "os_Lstat ?fsr p = Inl ENOENT"
    by (rule os_Lstat_after_removal [OF r']) (simp_all add: map_of_filter_key)
  with rm show ?thesis by blast
qed

subsection \<open>States that are trees\<close>






subsection \<open>A copy that succeeds\<close>







subsection \<open>A run over items that are links already\<close>




subsection \<open>Closed states, and making a directory at an empty place\<close>










subsection \<open>What a successful copy went through\<close>






subsection \<open>What a copy of a directory leaves\<close>















subsection \<open>The bytes of a copied file\<close>


section \<open>Properties\<close>

text \<open>
  C2. When the source of a tracked item is a symbolic link, \<open>processPath\<close> copies
  nothing, deletes nothing and makes no link: it returns the state it was given, and its
  only message is the one of the skip. This holds for init (\<open>isSync\<close> false) and for
  sync (\<open>isSync\<close> true).
\<close>

theorem processPath_symlink_unchanged:
  assumes "os_Lstat fs (filepath_Join homeDir item) = Inr (Symlink t)"
  shows "processPath item homeDir dotfilesRepoDir isSync fs = (fs, [SkipSymlink item])"
  using assms by (simp add: processPath_def linkStep_def)

theorem processPath_symlink_unchanged_witness:
  "os_Lstat exLinked (filepath_Join [''h''] [''.bashrc''])
     = Inr (Symlink [''r'', ''dotfiles'', ''.bashrc''])
   \<and> processPath [''.bashrc''] [''h''] [''r'', ''dotfiles''] True exLinked
       = (exLinked, [SkipSymlink [''.bashrc'']])
   \<and> processPath [''.bashrc''] [''h''] [''r'', ''dotfiles''] False exLinked
       = (exLinked, [SkipSymlink [''.bashrc'']])"
proof -
  have h: "os_Lstat exLinked (filepath_Join [''h''] [''.bashrc''])
           = Inr (Symlink [''r'', ''dotfiles'', ''.bashrc''])"
    by code_simp
  show ?thesis
    using h processPath_symlink_unchanged [OF h, of "[''r'', ''dotfiles'']" True]
      processPath_symlink_unchanged [OF h, of "[''r'', ''dotfiles'']" False]
    by simp
qed

text \<open>
  C8. From every state and for every item, \<open>processPath\<close> with \<open>isSync\<close> true and
  with \<open>isSync\<close> false leave the same file system; the flag only chooses between
  messages.
\<close>

theorem processPath_isSync_same_state:
  "fst (processPath item homeDir dotfilesRepoDir True fs)
   = fst (processPath item homeDir dotfilesRepoDir False fs)"
proof (cases "os_Lstat fs (filepath_Join homeDir item)")
  case (Inl e)
  then show ?thesis by (simp add: processPath_def)
next
  case (Inr fi)
  let ?src = "filepath_Join homeDir item" and ?dst = "filepath_Join dotfilesRepoDir item"
  obtain c1 f1 where c1: "copyDir fs ?src ?dst = (c1, f1)"
    by (cases "copyDir fs ?src ?dst")
  obtain r1 g1 where r1: "os_RemoveAll f1 ?src = (r1, g1)"
    by (cases "os_RemoveAll f1 ?src")
  obtain c2 f2 where c2: "copyFile fs ?src ?dst = (c2, f2)"
    by (cases "copyFile fs ?src ?dst")
  obtain r2 g2 where r2: "os_Remove f2 ?src = (r2, g2)"
    by (cases "os_Remove f2 ?src")
  show ?thesis
    using Inr c1 r1 c2 r2
    by (cases "isSymlink fi"; cases "isDir fi")
      (simp_all add: processPath_def split: prod.splits)
qed

text \<open>
  C5. When a stat of the \<^verbatim>\<open>dotfiles\<close> directory below the working directory says
  that it does not exist, \<open>syncCmd\<close> returns its error at once: the state is the one it
  was given and no message of any item has been produced.
\<close>

theorem syncCmd_missing_repository:
  assumes "UserHomeDir ev = Inr homeDir"
    and "Getwd ev = Inr repoDir"
    and "os_Stat fs (filepath_Join repoDir [''dotfiles'']) = Inl ENOENT"
  shows "syncCmd ev items fs = (Some NoRepository, fs, [])"
  using assms by (simp add: syncCmd_def os_IsNotExist_def)

theorem syncCmd_missing_repository_witness:
  "UserHomeDir exEnv = Inr [''h''] \<and> Getwd exEnv = Inr [''r'']
   \<and> os_Stat exFresh (filepath_Join [''r''] [''dotfiles'']) = Inl ENOENT
   \<and> syncCmd exEnv [[''.bashrc'']] exFresh = (Some NoRepository, exFresh, [])"
proof -
  have h1: "UserHomeDir exEnv = Inr [''h'']" and h2: "Getwd exEnv = Inr [''r'']"
    by (simp_all add: exEnv_def)
  have h3: "os_Stat exFresh (filepath_Join [''r''] [''dotfiles'']) = Inl ENOENT"
    by code_simp
  show ?thesis
    using h1 h2 h3 syncCmd_missing_repository [OF h1 h2 h3, of "[[''.bashrc'']]"]
    by simp
qed

text \<open>
  C6. When an lstat of the source fails and a stat of the repository copy fails too,
  \<open>processPath\<close> makes no link and returns the state it was given; and the loop over
  the items goes on with the remaining items from that same state.
\<close>

theorem processPath_nothing_to_do:
  assumes "os_Lstat fs (filepath_Join homeDir item) = Inl e"
    and "os_Stat fs (filepath_Join dotfilesRepoDir item) = Inl e'"
  shows "fst (processPath item homeDir dotfilesRepoDir isSync fs) = fs
         \<and> CreatedSymlink item \<notin> set (snd (processPath item homeDir dotfilesRepoDir isSync fs))
         \<and> fst (forItems (\<lambda>i. processPath i homeDir dotfilesRepoDir isSync) (item # items) fs)
             = fst (forItems (\<lambda>i. processPath i homeDir dotfilesRepoDir isSync) items fs)"
  using assms by (simp add: processPath_def linkStep_def split: prod.splits)

theorem processPath_nothing_to_do_witness:
  "os_Lstat exEmpty (filepath_Join [''h''] [''.vimrc'']) = Inl ENOENT
   \<and> os_Stat exEmpty (filepath_Join [''r'', ''dotfiles''] [''.vimrc'']) = Inl ENOENT
   \<and> fst (processPath [''.vimrc''] [''h''] [''r'', ''dotfiles''] False exEmpty) = exEmpty
   \<and> CreatedSymlink [''.vimrc'']
       \<notin> set (snd (processPath [''.vimrc''] [''h''] [''r'', ''dotfiles''] False exEmpty))
   \<and> fst (forItems (\<lambda>i. processPath i [''h''] [''r'', ''dotfiles''] False)
            [[''.vimrc''], [''.bashrc'']] exEmpty)
       = fst (forItems (\<lambda>i. processPath i [''h''] [''r'', ''dotfiles''] False)
               [[''.bashrc'']] exEmpty)"
proof -
  have h1: "os_Lstat exEmpty (filepath_Join [''h''] [''.vimrc'']) = Inl ENOENT"
    by code_simp
  have h2: "os_Stat exEmpty (filepath_Join [''r'', ''dotfiles''] [''.vimrc'']) = Inl ENOENT"
    by code_simp
  show ?thesis
    using h1 h2 processPath_nothing_to_do [OF h1 h2, of False "[[''.bashrc'']]"]
    by simp
qed

text \<open>
  C10. \<open>processFile\<close> of the first variant and \<open>processPath\<close> of the second leave
  the same file system whenever an lstat of the source does not answer a directory: when
  it answers a symbolic link or a regular file, when the source is missing, and when the
  lstat fails for another reason. So they can differ only on a directory.
\<close>

theorem processFile_processPath_agree:
  assumes "\<forall>n. os_Lstat fs (filepath_Join homeDir item) = Inr n \<longrightarrow> \<not> isDir n"
  shows "fst (processFile item homeDir dotfilesRepoDir isSync fs)
         = fst (processPath item homeDir dotfilesRepoDir isSync fs)"
proof (cases "os_Lstat fs (filepath_Join homeDir item)")
  case (Inl e)
  then show ?thesis by (simp add: processPath_def processFile_def)
next
  case (Inr fi)
  let ?src = "filepath_Join homeDir item" and ?dst = "filepath_Join dotfilesRepoDir item"
  obtain c2 f2 where c2: "copyFile fs ?src ?dst = (c2, f2)"
    by (cases "copyFile fs ?src ?dst")
  obtain r2 g2 where r2: "os_Remove f2 ?src = (r2, g2)"
    by (cases "os_Remove f2 ?src")
  have nd: "\<not> isDir fi" using assms Inr by simp
  show ?thesis
    using Inr c2 r2 nd
    by (cases "isSymlink fi")
      (simp_all add: processPath_def processFile_def split: prod.splits)
qed

theorem processFile_processPath_agree_witness:
  "os_Lstat exFresh (filepath_Join [''h''] [''.bashrc'']) = Inr (File 420 [1, 2, 3])
   \<and> fst (processFile [''.bashrc''] [''h''] [''r'', ''dotfiles''] False exFresh)
       = fst (processPath [''.bashrc''] [''h''] [''r'', ''dotfiles''] False exFresh)"
proof -
  have f: "os_Lstat exFresh (filepath_Join [''h''] [''.bashrc'']) = Inr (File 420 [1, 2, 3])"
    by code_simp
  then have h: "\<forall>n. os_Lstat exFresh (filepath_Join [''h''] [''.bashrc'']) = Inr n \<longrightarrow> \<not> isDir n"
    by auto
  show ?thesis
    using f processFile_processPath_agree [OF h, of "[''r'', ''dotfiles'']" False]
    by simp
qed




text \<open>
  C9. When an lstat of the source answers something that is not a symbolic link, the
  original is removed after the copy step whatever the copy returned (\<open>cerr\<close> is any
  outcome, an error too): \<open>os.RemoveAll\<close> for a directory and \<open>os.Remove\<close> for a file
  run on the state the copy left, they succeed, an lstat of the source then says that it
  does not exist, and the link step starts from that state. So a failed copy does not keep
  the original from being removed.
\<close>

theorem removal_after_copy_unconditional:
  assumes l: "os_Lstat fs (filepath_Join homeDir item) = Inr fi"
    and ns: "\<not> isSymlink fi"
    and c: "(if isDir fi
             then copyDir fs (filepath_Join homeDir item) (filepath_Join dotfilesRepoDir item)
             else copyFile fs (filepath_Join homeDir item) (filepath_Join dotfilesRepoDir item))
            = (cerr, fsc)"
  shows "\<exists>fsr.
           (if isDir fi then os_RemoveAll fsc (filepath_Join homeDir item)
            else os_Remove fsc (filepath_Join homeDir item)) = (None, fsr)
         \<and> os_Lstat fsr (filepath_Join homeDir item) = Inl ENOENT
         \<and> fst (processPath item homeDir dotfilesRepoDir isSync fs)
             = fst (linkStep item (filepath_Join homeDir item)
                     (filepath_Join dotfilesRepoDir item) fsr)"
proof (cases "isDir fi")
  case True
  let ?src = "filepath_Join homeDir item" and ?dst = "filepath_Join dotfilesRepoDir item"
  from c True have cd: "copyDir fs ?src ?dst = (cerr, fsc)" by simp
  have g: "grows (map_of fs) (map_of fsc)"
    using copyDir_grows [of fs ?src ?dst] cd by simp
  from os_RemoveAll_original [OF l g] obtain fsr
    where rm: "os_RemoveAll fsc ?src = (None, fsr)" and gone: "os_Lstat fsr ?src = Inl ENOENT"
    by blast
  have "fst (processPath item homeDir dotfilesRepoDir isSync fs) = fst (linkStep item ?src ?dst fsr)"
    using l ns True cd rm by (simp add: processPath_def split: prod.splits)
  with rm gone True show ?thesis by simp
next
  case False
  let ?src = "filepath_Join homeDir item" and ?dst = "filepath_Join dotfilesRepoDir item"
  from c False have cf: "copyFile fs ?src ?dst = (cerr, fsc)" by simp
  have g: "grows (map_of fs) (map_of fsc)"
    using copyFile_grows [of fs ?src ?dst] cf by simp
  from os_Remove_original [OF l ns False g] obtain fsr
    where rm: "os_Remove fsc ?src = (None, fsr)" and gone: "os_Lstat fsr ?src = Inl ENOENT"
    by blast
  have "fst (processPath item homeDir dotfilesRepoDir isSync fs) = fst (linkStep item ?src ?dst fsr)"
    using l ns False cf rm by (simp add: processPath_def split: prod.splits)
  with rm gone False show ?thesis by simp
qed

theorem removal_after_copy_unconditional_witness:
  "os_Lstat exBlocked (filepath_Join [''h''] [''.config'', ''app'']) = Inr (File 420 [1, 2, 3])
   \<and> copyFile exBlocked (filepath_Join [''h''] [''.config'', ''app''])
         (filepath_Join [''r'', ''dotfiles''] [''.config'', ''app''])
       = (Some ENOTDIR, exBlocked)
   \<and> (\<exists>fsr. os_Remove exBlocked (filepath_Join [''h''] [''.config'', ''app'']) = (None, fsr)
         \<and> os_Lstat fsr (filepath_Join [''h''] [''.config'', ''app'']) = Inl ENOENT
         \<and> fst (processPath [''.config'', ''app''] [''h''] [''r'', ''dotfiles''] False exBlocked)
             = fst (linkStep [''.config'', ''app''] (filepath_Join [''h''] [''.config'', ''app''])
                     (filepath_Join [''r'', ''dotfiles''] [''.config'', ''app'']) fsr))"
proof -
  let ?src = "filepath_Join [''h''] [''.config'', ''app'']"
  let ?dst = "filepath_Join [''r'', ''dotfiles''] [''.config'', ''app'']"
  have h1: "os_Lstat exBlocked ?src = Inr (File 420 [1, 2, 3])"
    by code_simp
  have h2: "\<not> isSymlink (File 420 [1, 2, 3])"
    by simp
  have h3: "copyFile exBlocked ?src ?dst = (Some ENOTDIR, exBlocked)"
    by code_simp
  then have h3': "(if isDir (File 420 [1, 2, 3]) then copyDir exBlocked ?src ?dst
                   else copyFile exBlocked ?src ?dst) = (Some ENOTDIR, exBlocked)"
    by simp
  show ?thesis
    using h1 h3 removal_after_copy_unconditional [OF h1 h2 h3', of False]
    by simp
qed









end
